theory Spec2Isabelle
  imports Complex_Main
begin

section \<open>Musicy: the sequencer of app.js\<close>

text \<open>
  The application keeps all of its state in module-level variables; the model collects
  them in one record and passes it through every function.  JavaScript numbers that hold
  times, frequencies and gains are modelled as exact reals (no rounding, no NaN and no
  infinities); the step counters are naturals and the tempo, which comes out of
  \<open>parseInt\<close>, is an integer.  Division by a tempo of zero gives Infinity in JavaScript
  and 0 in HOL, so every statement that depends on a step length assumes a positive tempo.
  The page itself is not part of the sources: the model takes the elements that the script
  looks up to exist, the call to action to be visible and the controls to be hidden when
  the script starts.
\<close>

subsection \<open>CONFIG and defaults\<close>

definition LOOKAHEAD :: real where
  "LOOKAHEAD = 1 / 10"

definition SCHEDULE_INTERVAL :: nat where
  "SCHEDULE_INTERVAL = 25"

definition DEFAULT_TEMPO :: int where
  "DEFAULT_TEMPO = 110"

definition LOOP_BEATS :: nat where
  "LOOP_BEATS = 4"

definition SUBDIV :: nat where
  "SUBDIV = 4"

definition PALETTE :: "string list" where
  "PALETTE = [''#8b5cf6'', ''#06b6d4'', ''#fb7185'', ''#22c55e'']"

definition synthDefaults_type :: string where
  "synthDefaults_type = ''sine''"

definition synthDefaults_duration :: real where
  "synthDefaults_duration = 18 / 100"

text \<open>\<open>let steps = CONFIG.LOOP_BEATS * CONFIG.SUBDIV\<close> is never assigned again.\<close>

definition steps :: nat where
  "steps = LOOP_BEATS * SUBDIV"

subsection \<open>Data\<close>

text \<open>An element of the \<open>events\<close> array, with the fields \<open>placeEventAt\<close> gives it.\<close>

record event =
  ev_id :: string
  step :: nat
  freq :: real
  baseFreq :: real
  gain :: real
  duration :: real
  color :: string
  ev_type :: string

text \<open>The nodes of the Web Audio graph: the shared ones and those of one note.\<close>

datatype node =
  Destination | Master | GlobalDelay | DelayGain | GlobalReverb | ReverbGain | Analyser
  | Osc | Filter | Env

text \<open>The two automation calls \<open>playEventAt\<close> makes: target value, then time.\<close>

datatype param_event =
  SetValueAtTime real real
  | ExponentialRampToValueAtTime real real

text \<open>What one call of \<open>playEventAt\<close> hands to the audio engine.\<close>

record voice =
  osc_type :: string
  osc_frequency :: real
  env_gain_value :: real
  filter_type :: string
  filter_frequency :: real
  connections :: "(node \<times> node) list"
  automation :: "param_event list"
  osc_start :: real
  osc_stop :: real

text \<open>
  The audio context once it exists: its clock, the effect graph that \<open>ensureAudio\<close>
  wires, and the notes dispatched so far in dispatch order.  The random samples of the
  impulse response are left out.
\<close>

record audio =
  currentTime :: real
  master_gain :: real
  delay_delayTime :: real
  delayGain_gain :: real
  reverbGain_gain :: real
  graph :: "(node \<times> node) list"
  voices :: "voice list"

text \<open>The value that \<open>JSON.stringify\<close> receives in \<open>exportPattern\<close>.\<close>

datatype json =
  JInt int
  | JNum real
  | JStr string
  | JArr "json list"
  | JObj "(string \<times> json) list"

datatype error = TypeError

text \<open>
  The module state.  \<open>audioSupported\<close>, \<open>timerCounter\<close> and \<open>activeTimers\<close> belong to
  the browser: whether an AudioContext constructor exists, the last interval handle
  handed out and the intervals that are still installed.  \<open>visualLog\<close> is the visual
  sink: the arguments of every \<open>triggerVisualEvent\<close> call.  \<open>draggingEvent\<close> refers to
  an element of \<open>events\<close>; only its id is ever read through it, so the id is stored.
\<close>

record state =
  audioSupported :: bool
  timerCounter :: nat
  activeTimers :: "nat list"
  audioCtx :: "audio option"
  tempo :: int
  beatLength :: real
  loopStartTime :: real
  currentStep :: nat
  events :: "event list"
  schedulerTimer :: "nat option"
  nextStepTime :: real
  isDelayOn :: bool
  isReverbOn :: bool
  pointer_x :: real
  pointer_y :: real
  pointer_down :: bool
  lastPlacedEventId :: "string option"
  draggingEvent :: "string option"
  ctaHidden :: bool
  controlsHidden :: bool
  tempoVal :: int
  toggleDelayBtn :: string
  toggleReverbBtn :: string
  visualLog :: "(event \<times> real) list"
  download :: "(string \<times> json) option"

text \<open>A call returns, or throws with the state it has reached.\<close>

datatype outcome = Returned state | Threw error state

fun final :: "outcome \<Rightarrow> state" where
  "final (Returned s) = s"
| "final (Threw e s) = s"

text \<open>The variables as the script initialises them, before any handler has run.\<close>

definition initial :: "bool \<Rightarrow> state" where
  "initial supported =
     \<lparr> audioSupported = supported, timerCounter = 0, activeTimers = [],
       audioCtx = None, tempo = DEFAULT_TEMPO, beatLength = 60 / real_of_int DEFAULT_TEMPO,
       loopStartTime = 0, currentStep = 0, events = [], schedulerTimer = None,
       nextStepTime = 0, isDelayOn = False, isReverbOn = False,
       pointer_x = 0, pointer_y = 0, pointer_down = False,
       lastPlacedEventId = None, draggingEvent = None,
       ctaHidden = False, controlsHidden = True, tempoVal = DEFAULT_TEMPO,
       toggleDelayBtn = ''Delay: off'', toggleReverbBtn = ''Reverb: off'',
       visualLog = [], download = None \<rparr>"

subsection \<open>Audio setup and synthesis\<close>

definition new_audio :: audio where
  "new_audio =
     \<lparr> currentTime = 0, master_gain = 9 / 10, delay_delayTime = 18 / 100,
       delayGain_gain = 22 / 100, reverbGain_gain = 15 / 100,
       graph = [(Master, Destination), (GlobalDelay, DelayGain), (DelayGain, Master),
                (GlobalReverb, ReverbGain), (ReverbGain, Master), (Master, Analyser)],
       voices = [] \<rparr>"

definition ensureAudio :: "state \<Rightarrow> outcome" where
  "ensureAudio s =
     (if audioCtx s \<noteq> None then Returned s
      else if \<not> audioSupported s then Threw TypeError s
      else Returned (s\<lparr>audioCtx := Some new_audio\<rparr>))"

text \<open>\<open>a || b\<close> on strings and numbers: the empty string and 0 are falsy.\<close>

definition js_or_str :: "string \<Rightarrow> string \<Rightarrow> string" where
  "js_or_str a b = (if a = [] then b else a)"

definition js_or_num :: "real \<Rightarrow> real \<Rightarrow> real" where
  "js_or_num a b = (if a = 0 then b else a)"

text \<open>
  The nodes that \<open>playEventAt\<close> creates, connects and schedules once it is past its
  guard, in the order of the source.
\<close>

definition playEventAt_voice :: "event \<Rightarrow> real \<Rightarrow> state \<Rightarrow> voice" where
  "playEventAt_voice ev t s =
     (let start = t;
          dur = js_or_num (duration ev) synthDefaults_duration
      in \<lparr> osc_type = js_or_str (ev_type ev) synthDefaults_type,
           osc_frequency = freq ev,
           env_gain_value = 1 / 10000,
           filter_type = ''lowpass'',
           filter_frequency = 800 + freq ev * (6 / 10),
           connections =
             [(Osc, Filter), (Filter, Env), (Env, Master)]
             @ (if isDelayOn s then [(Env, GlobalDelay)] else [])
             @ (if isReverbOn s then [(Env, GlobalReverb)] else []),
           automation =
             [SetValueAtTime (1 / 10000) start,
              ExponentialRampToValueAtTime (js_or_num (gain ev) (8 / 10)) (start + 1 / 100),
              ExponentialRampToValueAtTime (1 / 10000) (start + dur)],
           osc_start = start,
           osc_stop = start + dur + 2 / 100 \<rparr>)"

definition playEventAt :: "event \<Rightarrow> real \<Rightarrow> state \<Rightarrow> state" where
  "playEventAt ev t s =
     (case audioCtx s of
        None \<Rightarrow> s
      | Some ctx \<Rightarrow>
          s\<lparr>audioCtx := Some (ctx\<lparr>voices := voices ctx @ [playEventAt_voice ev t s]\<rparr>)\<rparr>)"

text \<open>The visual sink: both renderers are reduced to a record of the call.\<close>

definition triggerVisualEvent :: "event \<Rightarrow> real \<Rightarrow> state \<Rightarrow> state" where
  "triggerVisualEvent ev latency s = s\<lparr>visualLog := visualLog s @ [(ev, latency)]\<rparr>"

subsection \<open>Scheduler\<close>

text \<open>\<open>if(schedulerTimer)\<close>: null and the handle 0 are falsy.\<close>

definition timer_set :: "nat option \<Rightarrow> bool" where
  "timer_set h = (case h of None \<Rightarrow> False | Some n \<Rightarrow> n \<noteq> 0)"

text \<open>\<open>setInterval\<close> installs a timer under a fresh positive handle.\<close>

definition setInterval :: "state \<Rightarrow> state" where
  "setInterval s =
     s\<lparr>timerCounter := Suc (timerCounter s),
       activeTimers := activeTimers s @ [Suc (timerCounter s)],
       schedulerTimer := Some (Suc (timerCounter s))\<rparr>"

definition startScheduler :: "state \<Rightarrow> outcome" where
  "startScheduler s =
     (if timer_set (schedulerTimer s) then Returned s
      else
        (case (if audioCtx s = None then ensureAudio s else Returned s) of
           Threw e s1 \<Rightarrow> Threw e s1
         | Returned s1 \<Rightarrow>
             (case audioCtx s1 of
                None \<Rightarrow> Threw TypeError s1
              | Some ctx \<Rightarrow>
                  (let s2 = s1\<lparr>loopStartTime := currentTime ctx + 1 / 10\<rparr>;
                       s3 = s2\<lparr>nextStepTime := loopStartTime s2\<rparr>;
                       s4 = s3\<lparr>currentStep := 0\<rparr>
                   in Returned (setInterval s4)))))"

definition stopScheduler :: "state \<Rightarrow> state" where
  "stopScheduler s =
     (case schedulerTimer s of
        None \<Rightarrow> s
      | Some h \<Rightarrow>
          (if timer_set (Some h)
           then s\<lparr>activeTimers := removeAll h (activeTimers s), schedulerTimer := None\<rparr>
           else s))"

text \<open>One pass through the body of the while loop of \<open>schedulerLoop\<close>.\<close>

definition schedulerLoop_body :: "real \<Rightarrow> state \<Rightarrow> state" where
  "schedulerLoop_body now s =
     (let stepEvents = filter (\<lambda>e. step e = currentStep s) (events s);
          s1 = fold (\<lambda>ev a. triggerVisualEvent ev (nextStepTime a - now)
                               (playEventAt ev (nextStepTime a) a)) stepEvents s;
          s2 = s1\<lparr>nextStepTime := nextStepTime s1 + (60 / real_of_int (tempo s1)) / real SUBDIV\<rparr>;
          s3 = s2\<lparr>currentStep := (currentStep s2 + 1) mod steps\<rparr>
      in if currentStep s3 = 0 then s3\<lparr>loopStartTime := nextStepTime s3\<rparr> else s3)"

text \<open>The while loop; a run that never leaves it has the value \<open>None\<close>.\<close>

partial_function (option) schedulerLoop_while :: "real \<Rightarrow> state \<Rightarrow> state option" where
  "schedulerLoop_while now s =
     (if nextStepTime s < now + LOOKAHEAD
      then schedulerLoop_while now (schedulerLoop_body now s)
      else Some s)"

definition schedulerLoop :: "state \<Rightarrow> outcome option" where
  "schedulerLoop s =
     (case audioCtx s of
        None \<Rightarrow> Some (Threw TypeError s)
      | Some ctx \<Rightarrow> map_option Returned (schedulerLoop_while (currentTime ctx) s))"

subsection \<open>Tempo and effect toggles\<close>

text \<open>
  The \<open>input\<close> listener of the tempo slider, installed by \<open>init\<close>; \<open>v\<close> is the value
  of \<open>parseInt(e.target.value, 10)\<close>.
\<close>

definition onTempoInput :: "int \<Rightarrow> state \<Rightarrow> state" where
  "onTempoInput v s =
     (let s1 = s\<lparr>tempo := v\<rparr>;
          s2 = s1\<lparr>tempoVal := tempo s1\<rparr>
      in s2\<lparr>beatLength := 60 / real_of_int (tempo s2)\<rparr>)"

definition setDelay :: "bool \<Rightarrow> state \<Rightarrow> state" where
  "setDelay on s =
     (let s1 = s\<lparr>isDelayOn := on\<rparr>
      in s1\<lparr>toggleDelayBtn := ''Delay: '' @ (if on then ''on'' else ''off'')\<rparr>)"

definition toggleDelay :: "state \<Rightarrow> state" where
  "toggleDelay s = setDelay (\<not> isDelayOn s) s"

definition setReverb :: "bool \<Rightarrow> state \<Rightarrow> state" where
  "setReverb on s =
     (let s1 = s\<lparr>isReverbOn := on\<rparr>
      in s1\<lparr>toggleReverbBtn := ''Reverb: '' @ (if on then ''on'' else ''off'')\<rparr>)"

definition toggleReverb :: "state \<Rightarrow> state" where
  "toggleReverb s = setReverb (\<not> isReverbOn s) s"

subsection \<open>Export\<close>

definition exportPattern_out :: "state \<Rightarrow> json" where
  "exportPattern_out s =
     JObj [(''tempo'', JInt (tempo s)),
           (''steps'', JInt (int steps)),
           (''events'', JArr (map (\<lambda>e.
               JObj [(''step'', JInt (int (step e))), (''freq'', JNum (freq e)),
                     (''gain'', JNum (gain e)), (''duration'', JNum (duration e)),
                     (''color'', JStr (color e)), (''type'', JStr (ev_type e))])
             (events s)))]"

text \<open>The blob goes to the download link, which is clicked.\<close>

definition exportPattern :: "state \<Rightarrow> state" where
  "exportPattern s = s\<lparr>download := Some (''musicy-pattern.json'', exportPattern_out s)\<rparr>"

subsection \<open>Placing and dragging events\<close>

definition midiToFreq :: "int \<Rightarrow> real" where
  "midiToFreq m = 440 * 2 powr ((real_of_int m - 69) / 12)"

text \<open>\<open>Math.round\<close> rounds halves upwards.\<close>

definition Math_round :: "real \<Rightarrow> int" where
  "Math_round x = \<lfloor>x + 1 / 2\<rfloor>"

text \<open>The remainder operator on numbers: the quotient is truncated towards zero.\<close>

definition js_rem :: "real \<Rightarrow> real \<Rightarrow> real" where
  "js_rem a b =
     a - b * real_of_int (if 0 \<le> a / b then \<lfloor>a / b\<rfloor> else \<lceil>a / b\<rceil>)"

text \<open>
  \<open>rid\<close> is the text that \<open>Math.random().toString(36).slice(2,9)\<close> yields and \<open>rc\<close> the
  second draw of \<open>Math.random()\<close>, which picks the colour.
\<close>

definition placeEventAt :: "real \<Rightarrow> real \<Rightarrow> string \<Rightarrow> real \<Rightarrow> state \<Rightarrow> outcome" where
  "placeEventAt nx ny rid rc s =
     (case (if audioCtx s = None then ensureAudio s else Returned s) of
        Threw e s1 \<Rightarrow> Threw e s1
      | Returned s1 \<Rightarrow>
          (case audioCtx s1 of
             None \<Rightarrow> Threw TypeError s1
           | Some ctx \<Rightarrow>
               (let now = currentTime ctx;
                    loopPos = js_rem (now - loopStartTime s1)
                                (real steps * (60 / real_of_int (tempo s1)) / real SUBDIV);
                    stepIndex = (currentStep s1 + 1) mod steps;
                    bf = midiToFreq (48 + Math_round ((1 - ny) * 24));
                    i = nat \<lfloor>rc * real (length PALETTE)\<rfloor>;
                    ev = \<lparr> ev_id = ''e'' @ rid, step = stepIndex, freq = bf, baseFreq = bf,
                           gain = 6 / 10, duration = 18 / 100,
                           color = (if i < length PALETTE then PALETTE ! i else []),
                           ev_type = ''sine'' \<rparr>;
                    s2 = s1\<lparr>events := events s1 @ [ev]\<rparr>;
                    s3 = s2\<lparr>lastPlacedEventId := Some (ev_id ev)\<rparr>;
                    s4 = playEventAt (ev\<lparr>gain := gain ev\<rparr>) (currentTime ctx + 5 / 1000) s3
                in Returned (triggerVisualEvent ev 0 s4))))"

definition Math_hypot :: "real \<Rightarrow> real \<Rightarrow> real" where
  "Math_hypot a b = sqrt (a * a + b * b)"

text \<open>The loop of \<open>pickEventNear\<close> over \<open>best\<close> and \<open>bestDist\<close>.\<close>

definition pickEventNear_step :: "real \<Rightarrow> real \<Rightarrow> event \<Rightarrow> event option \<times> real \<Rightarrow> event option \<times> real" where
  "pickEventNear_step nx ny ev acc =
     (let angle = (real (step ev) / real steps) * pi * 2 - pi / 2;
          ex = 1 / 2 + (28 / 100) * cos angle;
          ey = 1 / 2 + (28 / 100) * sin angle;
          d = Math_hypot (nx - ex) (ny - ey)
      in if d < 8 / 100 \<and> d < snd acc then (Some ev, d) else acc)"

definition pickEventNear :: "real \<Rightarrow> real \<Rightarrow> state \<Rightarrow> event option" where
  "pickEventNear nx ny s =
     (if length (events s) = 0 then None
      else fst (fold (pickEventNear_step nx ny) (events s) (None, 1)))"

text \<open>
  \<open>onStartGesture\<close> is asynchronous.  Its first part runs with the caller: the audio
  engine is created, any failure being caught and logged.  Its second part runs after
  the awaits: the controls are shown and the scheduler is started; a throw there rejects
  the promise and reaches no caller.
\<close>

definition onStartGesture_enter :: "state \<Rightarrow> state" where
  "onStartGesture_enter s = final (ensureAudio s)"

definition onStartGesture_resume :: "state \<Rightarrow> outcome" where
  "onStartGesture_resume s =
     (let s1 = s\<lparr>ctaHidden := True\<rparr>;
          s2 = s1\<lparr>controlsHidden := False\<rparr>
      in startScheduler s2)"

text \<open>\<open>px\<close> and \<open>py\<close> are the pointer coordinates divided by the canvas size.\<close>

definition onPointerDown :: "real \<Rightarrow> real \<Rightarrow> string \<Rightarrow> real \<Rightarrow> state \<Rightarrow> outcome" where
  "onPointerDown px py rid rc s =
     (let s1 = s\<lparr>pointer_down := True\<rparr>;
          s2 = s1\<lparr>pointer_x := px\<rparr>;
          s3 = s2\<lparr>pointer_y := py\<rparr>
      in case (if \<not> controlsHidden s3
               then placeEventAt (pointer_x s3) (pointer_y s3) rid rc s3
               else Returned (onStartGesture_enter s3)) of
           Threw e s4 \<Rightarrow> Threw e s4
         | Returned s4 \<Rightarrow>
             (case pickEventNear (pointer_x s4) (pointer_y s4) s4 of
                Some hit \<Rightarrow>
                  Returned (s4\<lparr>draggingEvent := Some (ev_id hit),
                               lastPlacedEventId := Some (ev_id hit)\<rparr>)
              | None \<Rightarrow> Returned (s4\<lparr>draggingEvent := None\<rparr>)))"

text \<open>The first element that satisfies \<open>P\<close> is replaced, as a mutation of the found object does.\<close>

fun update_first :: "('a \<Rightarrow> bool) \<Rightarrow> ('a \<Rightarrow> 'a) \<Rightarrow> 'a list \<Rightarrow> 'a list" where
  "update_first P f [] = []"
| "update_first P f (x # xs) = (if P x then f x # xs else x # update_first P f xs)"

definition drag_event :: "real \<Rightarrow> real \<Rightarrow> event \<Rightarrow> event" where
  "drag_event px py ev =
     (let vol = 1 - min (max py 0) 1;
          ev1 = ev\<lparr>gain := 2 / 10 + vol * (8 / 10)\<rparr>;
          pan = min (max px 0) 1
      in ev1\<lparr>freq := baseFreq ev1 * 2 powr ((pan - 1 / 2) * 2)\<rparr>)"

definition onPointerMove :: "real \<Rightarrow> real \<Rightarrow> state \<Rightarrow> state" where
  "onPointerMove px py s =
     (let s1 = s\<lparr>pointer_x := px\<rparr>;
          s2 = s1\<lparr>pointer_y := py\<rparr>
      in case draggingEvent s2 of
           None \<Rightarrow> s2
         | Some d \<Rightarrow>
             (if pointer_down s2
              then s2\<lparr>events := update_first (\<lambda>x. ev_id x = d)
                                   (drag_event (pointer_x s2) (pointer_y s2)) (events s2)\<rparr>
              else s2))"

definition onPointerUp :: "state \<Rightarrow> state" where
  "onPointerUp s = (let s1 = s\<lparr>pointer_down := False\<rparr> in s1\<lparr>draggingEvent := None\<rparr>)"

subsection \<open>The handlers as a transition system\<close>

text \<open>The audio clock moves on between two handlers.\<close>

definition advanceClock :: "real \<Rightarrow> state \<Rightarrow> state" where
  "advanceClock d s =
     (case audioCtx s of
        None \<Rightarrow> s
      | Some ctx \<Rightarrow> s\<lparr>audioCtx := Some (ctx\<lparr>currentTime := currentTime ctx + d\<rparr>)\<rparr>)"

text \<open>
  Everything that can run after \<open>init\<close>: the listeners it installs, the interval
  callback, the two-finger pinch (which calls \<open>setDelay\<close>), \<open>stopScheduler\<close>, and the
  passing of time.
\<close>

datatype action =
  StartGesture
  | StartGestureResume
  | StopScheduler
  | Tick
  | TempoInput int
  | ToggleDelay
  | ToggleReverb
  | Pinch bool
  | ExportClick
  | PointerDown real real string real
  | PointerMove real real
  | PointerUp
  | ClockAdvance real

text \<open>
  The interval callback runs only while an interval is installed, the slider yields
  positive tempos, \<open>Math.random()\<close> lies in \<open>[0, 1)\<close> and the clock never runs backwards.
  The second part of \<open>onStartGesture\<close> is allowed at any moment, which includes every
  moment at which it can really run.
\<close>

fun enabled :: "action \<Rightarrow> state \<Rightarrow> bool" where
  "enabled Tick s = (activeTimers s \<noteq> [])"
| "enabled (TempoInput v) s = (0 < v)"
| "enabled (PointerDown px py rid rc) s = (0 \<le> rc \<and> rc < 1)"
| "enabled (ClockAdvance d) s = (0 \<le> d)"
| "enabled a s = True"

fun run :: "action \<Rightarrow> state \<Rightarrow> outcome option" where
  "run StartGesture s = Some (Returned (onStartGesture_enter s))"
| "run StartGestureResume s = Some (onStartGesture_resume s)"
| "run StopScheduler s = Some (Returned (stopScheduler s))"
| "run Tick s = schedulerLoop s"
| "run (TempoInput v) s = Some (Returned (onTempoInput v s))"
| "run ToggleDelay s = Some (Returned (toggleDelay s))"
| "run ToggleReverb s = Some (Returned (toggleReverb s))"
| "run (Pinch on) s = Some (Returned (setDelay on s))"
| "run ExportClick s = Some (Returned (exportPattern s))"
| "run (PointerDown px py rid rc) s = Some (onPointerDown px py rid rc s)"
| "run (PointerMove px py) s = Some (Returned (onPointerMove px py s))"
| "run PointerUp s = Some (Returned (onPointerUp s))"
| "run (ClockAdvance d) s = Some (Returned (advanceClock d s))"

inductive reachable :: "state \<Rightarrow> bool" where
  reachable_initial: "reachable (initial supported)"
| reachable_run: "reachable s \<Longrightarrow> enabled a s \<Longrightarrow> run a s = Some out \<Longrightarrow> reachable (final out)"

subsection \<open>Example sessions\<close>

text \<open>A browser with Web Audio in which the start gesture has completed.\<close>

definition session_started :: state where
  "session_started = final (onStartGesture_resume (initial True))"

definition demo_event :: event where
  "demo_event =
     \<lparr> ev_id = ''e4fzzzx'', step = 0, freq = 440, baseFreq = 440, gain = 6 / 10,
       duration = 18 / 100, color = ''#8b5cf6'', ev_type = ''sine'' \<rparr>"

text \<open>The same session 200 ms later, with one event on step 0.\<close>

definition session_playing :: state where
  "session_playing = advanceClock (1 / 5) (session_started\<lparr>events := [demo_event]\<rparr>)"

text \<open>A tap on the canvas of the started session.\<close>

definition session_tapped :: state where
  "session_tapped = final (onPointerDown (3 / 5) (1 / 8) ''4fzzzxk'' 0 session_started)"

subsection \<open>What every reachable state satisfies\<close>

text \<open>
  The browser's interval table holds the scheduler's interval and nothing else, handles
  are positive, an installed interval implies an audio context, the tempo is positive and
  every event sits on a step of the grid.
\<close>

definition invariant :: "state \<Rightarrow> bool" where
  "invariant s \<longleftrightarrow>
     activeTimers s = (case schedulerTimer s of None \<Rightarrow> [] | Some h \<Rightarrow> [h])
     \<and> schedulerTimer s \<noteq> Some 0
     \<and> (schedulerTimer s \<noteq> None \<longrightarrow> audioCtx s \<noteq> None)
     \<and> 0 < tempo s
     \<and> (\<forall>e \<in> set (events s). step e < steps)"

section \<open>Properties\<close>

subsection \<open>The scheduler loop\<close>

lemma playEventAt_frame:
  "nextStepTime (playEventAt ev t s) = nextStepTime s"
  "tempo (playEventAt ev t s) = tempo s"
  "currentStep (playEventAt ev t s) = currentStep s"
  "loopStartTime (playEventAt ev t s) = loopStartTime s"
  "visualLog (playEventAt ev t s) = visualLog s"
  "events (playEventAt ev t s) = events s"
  by (simp_all add: playEventAt_def Let_def split: option.splits)

lemma playEventAt_visualLog_update:
  "playEventAt ev t (s\<lparr>visualLog := l\<rparr>) = (playEventAt ev t s)\<lparr>visualLog := l\<rparr>"
  by (simp add: playEventAt_def playEventAt_voice_def split: option.splits)

lemma fold_playEventAt_visualLog_update:
  "fold (\<lambda>ev. playEventAt ev t) evs (s\<lparr>visualLog := l\<rparr>)
     = (fold (\<lambda>ev. playEventAt ev t) evs s)\<lparr>visualLog := l\<rparr>"
  by (induction evs arbitrary: s) (simp_all add: playEventAt_visualLog_update)

lemma fold_playEventAt_frame:
  "nextStepTime (fold (\<lambda>ev. playEventAt ev t) evs s) = nextStepTime s"
  "tempo (fold (\<lambda>ev. playEventAt ev t) evs s) = tempo s"
  "currentStep (fold (\<lambda>ev. playEventAt ev t) evs s) = currentStep s"
  "loopStartTime (fold (\<lambda>ev. playEventAt ev t) evs s) = loopStartTime s"
  "visualLog (fold (\<lambda>ev. playEventAt ev t) evs s) = visualLog s"
  "events (fold (\<lambda>ev. playEventAt ev t) evs s) = events s"
  by (induction evs arbitrary: s) (simp_all add: playEventAt_frame)

lemma fold_dispatch:
  "fold (\<lambda>ev a. triggerVisualEvent ev (nextStepTime a - now) (playEventAt ev (nextStepTime a) a)) evs s
     = (fold (\<lambda>ev. playEventAt ev (nextStepTime s)) evs s)
         \<lparr>visualLog := visualLog s @ map (\<lambda>e. (e, nextStepTime s - now)) evs\<rparr>"
proof (induction evs arbitrary: s)
  case Nil
  show ?case by simp
next
  case (Cons e es)
  let ?a = "triggerVisualEvent e (nextStepTime s - now) (playEventAt e (nextStepTime s) s)"
  have a: "?a = (playEventAt e (nextStepTime s) s)\<lparr>visualLog := visualLog s @ [(e, nextStepTime s - now)]\<rparr>"
    by (simp add: triggerVisualEvent_def playEventAt_frame)
  have n: "nextStepTime ?a = nextStepTime s"
    by (simp add: a playEventAt_frame)
  have v: "visualLog ?a = visualLog s @ [(e, nextStepTime s - now)]"
    by (simp add: a)
  show ?case
    apply (simp only: fold_simps Cons.IH n v)
    apply (simp add: a fold_playEventAt_visualLog_update)
    done
qed

lemma schedulerLoop_body_eq:
  "schedulerLoop_body now s =
     (fold (\<lambda>ev. playEventAt ev (nextStepTime s)) (filter (\<lambda>e. step e = currentStep s) (events s)) s)
       \<lparr>visualLog := visualLog s @ map (\<lambda>e. (e, nextStepTime s - now)) (filter (\<lambda>e. step e = currentStep s) (events s)),
        nextStepTime := nextStepTime s + (60 / real_of_int (tempo s)) / real SUBDIV,
        currentStep := (currentStep s + 1) mod steps,
        loopStartTime := (if (currentStep s + 1) mod steps = 0
                          then nextStepTime s + (60 / real_of_int (tempo s)) / real SUBDIV
                          else loopStartTime s)\<rparr>"
  unfolding schedulerLoop_body_def Let_def fold_dispatch
  by (simp add: fold_playEventAt_frame)

lemma schedulerLoop_while_stop: "\<not> nextStepTime s < now + LOOKAHEAD \<Longrightarrow> schedulerLoop_while now s = Some s"
  by (subst schedulerLoop_while.simps) simp

lemma schedulerLoop_while_go: "nextStepTime s < now + LOOKAHEAD \<Longrightarrow>
  schedulerLoop_while now s = schedulerLoop_while now (schedulerLoop_body now s)"
  by (subst schedulerLoop_while.simps) simp

lemma body_tempo: "tempo (schedulerLoop_body now s) = tempo s"
  by (simp add: schedulerLoop_body_eq fold_playEventAt_frame)

lemma body_nextStepTime:
  "nextStepTime (schedulerLoop_body now s) = nextStepTime s + (60 / real_of_int (tempo s)) / real SUBDIV"
  by (simp add: schedulerLoop_body_eq)

lemma schedulerLoop_while_terminates:
  assumes "0 < tempo s"
  shows "\<exists>n. schedulerLoop_while now s = Some ((schedulerLoop_body now ^^ n) s)
            \<and> (\<forall>k<n. nextStepTime ((schedulerLoop_body now ^^ k) s) < now + LOOKAHEAD)
            \<and> \<not> nextStepTime ((schedulerLoop_body now ^^ n) s) < now + LOOKAHEAD"
  using assms
proof (induction "nat \<lceil>(now + LOOKAHEAD - nextStepTime s) / ((60 / real_of_int (tempo s)) / real SUBDIV)\<rceil>"
         arbitrary: s rule: less_induct)
  case less
  let ?d = "(60 / real_of_int (tempo s)) / real SUBDIV"
  have dpos: "0 < ?d" using less.prems by (simp add: SUBDIV_def)
  show ?case
  proof (cases "nextStepTime s < now + LOOKAHEAD")
    case False
    then have "schedulerLoop_while now s = Some ((schedulerLoop_body now ^^ 0) s)"
      by (simp add: schedulerLoop_while_stop)
    with False show ?thesis by (intro exI[of _ 0]) simp
  next
    case True
    let ?s' = "schedulerLoop_body now s"
    let ?X = "now + LOOKAHEAD - nextStepTime s"
    have Xpos: "0 < ?X" using True by simp
    have t': "tempo ?s' = tempo s" by (rule body_tempo)
    have n': "nextStepTime ?s' = nextStepTime s + ?d" by (rule body_nextStepTime)
    have shift: "(a - (b + d)) / d = (a - b) / d - 1" if "0 < d" for a b d :: real
      using that by (simp add: diff_divide_distrib add_divide_distrib)
    have "(now + LOOKAHEAD - nextStepTime ?s') / ?d = ?X / ?d - 1"
      unfolding n' using dpos by (rule shift)
    then have c: "\<lceil>(now + LOOKAHEAD - nextStepTime ?s') / ?d\<rceil> = \<lceil>?X / ?d\<rceil> - 1"
      by (simp only: ceiling_diff_one)
    have "0 < ?X / ?d" using Xpos dpos by (rule divide_pos_pos)
    then have "0 < \<lceil>?X / ?d\<rceil>" using zero_less_ceiling by blast
    then have "nat (\<lceil>?X / ?d\<rceil> - 1) < nat \<lceil>?X / ?d\<rceil>"
      by linarith
    then have "nat \<lceil>(now + LOOKAHEAD - nextStepTime ?s') / ((60 / real_of_int (tempo ?s')) / real SUBDIV)\<rceil>
        < nat \<lceil>?X / ?d\<rceil>"
      by (simp only: c t')
    from less.hyps[OF this] less.prems t'
    obtain n where n: "schedulerLoop_while now ?s' = Some ((schedulerLoop_body now ^^ n) ?s')"
      "\<forall>k<n. nextStepTime ((schedulerLoop_body now ^^ k) ?s') < now + LOOKAHEAD"
      "\<not> nextStepTime ((schedulerLoop_body now ^^ n) ?s') < now + LOOKAHEAD"
      by auto
    have "schedulerLoop_while now s = Some ((schedulerLoop_body now ^^ Suc n) s)"
      using n(1) True by (simp add: schedulerLoop_while_go funpow_swap1)
    moreover have "\<forall>k<Suc n. nextStepTime ((schedulerLoop_body now ^^ k) s) < now + LOOKAHEAD"
    proof (intro allI impI)
      fix k assume "k < Suc n"
      show "nextStepTime ((schedulerLoop_body now ^^ k) s) < now + LOOKAHEAD"
      proof (cases k)
        case 0
        then show ?thesis using True by simp
      next
        case (Suc j)
        then have "j < n" using \<open>k < Suc n\<close> by simp
        with n(2) Suc show ?thesis by (simp add: funpow_swap1)
      qed
    qed
    moreover have "\<not> nextStepTime ((schedulerLoop_body now ^^ Suc n) s) < now + LOOKAHEAD"
      using n(3) by (simp add: funpow_swap1)
    ultimately show ?thesis by blast
  qed
qed

lemma playEventAt_frame2:
  "activeTimers (playEventAt ev t s) = activeTimers s"
  "schedulerTimer (playEventAt ev t s) = schedulerTimer s"
  "timerCounter (playEventAt ev t s) = timerCounter s"
  by (simp_all add: playEventAt_def Let_def split: option.splits)

lemma fold_playEventAt_frame2:
  "activeTimers (fold (\<lambda>ev. playEventAt ev t) evs s) = activeTimers s"
  "schedulerTimer (fold (\<lambda>ev. playEventAt ev t) evs s) = schedulerTimer s"
  by (induction evs arbitrary: s) (simp_all add: playEventAt_frame2)

lemma playEventAt_voices:
  "audioCtx s = Some c \<Longrightarrow> \<exists>v. audioCtx (playEventAt ev t s) = Some (c\<lparr>voices := voices c @ [v]\<rparr>)"
  by (auto simp: playEventAt_def)

lemma fold_playEventAt_voices:
  "audioCtx s = Some c \<Longrightarrow>
     \<exists>vs. audioCtx (fold (\<lambda>ev. playEventAt ev t) evs s) = Some (c\<lparr>voices := voices c @ vs\<rparr>)"
proof (induction evs arbitrary: s c)
  case Nil
  then show ?case by (intro exI[of _ "[]"]) simp
next
  case (Cons e es)
  from playEventAt_voices[OF Cons.prems, of e t]
  obtain v where v: "audioCtx (playEventAt e t s) = Some (c\<lparr>voices := voices c @ [v]\<rparr>)" ..
  from Cons.IH[OF v] obtain vs where
    "audioCtx (fold (\<lambda>ev. playEventAt ev t) es (playEventAt e t s))
       = Some (c\<lparr>voices := voices c @ [v] @ vs\<rparr>)"
    by auto
  then show ?case by (intro exI[of _ "[v] @ vs"]) simp
qed

lemma body_voices:
  assumes "audioCtx s = Some c"
  shows "\<exists>vs. audioCtx (schedulerLoop_body now s) = Some (c\<lparr>voices := voices c @ vs\<rparr>)"
proof -
  from fold_playEventAt_voices[OF assms] obtain vs where
    "audioCtx (fold (\<lambda>ev. playEventAt ev (nextStepTime s))
        (filter (\<lambda>e. step e = currentStep s) (events s)) s) = Some (c\<lparr>voices := voices c @ vs\<rparr>)"
    by blast
  then show ?thesis by (intro exI[of _ vs]) (simp add: schedulerLoop_body_eq)
qed

lemma funpow_body_voices:
  "audioCtx s = Some c \<Longrightarrow>
     \<exists>vs. audioCtx ((schedulerLoop_body now ^^ n) s) = Some (c\<lparr>voices := voices c @ vs\<rparr>)"
proof (induction n)
  case 0
  then show ?case by (intro exI[of _ "[]"]) simp
next
  case (Suc n)
  then obtain vs where vs: "audioCtx ((schedulerLoop_body now ^^ n) s) = Some (c\<lparr>voices := voices c @ vs\<rparr>)"
    by blast
  from body_voices[OF vs, of now] obtain ws where
    "audioCtx (schedulerLoop_body now ((schedulerLoop_body now ^^ n) s))
       = Some (c\<lparr>voices := voices c @ vs @ ws\<rparr>)"
    by auto
  then show ?case by (intro exI[of _ "vs @ ws"]) simp
qed

lemma body_frame:
  "tempo (schedulerLoop_body now s) = tempo s"
  "events (schedulerLoop_body now s) = events s"
  "activeTimers (schedulerLoop_body now s) = activeTimers s"
  "schedulerTimer (schedulerLoop_body now s) = schedulerTimer s"
  by (simp_all add: schedulerLoop_body_eq fold_playEventAt_frame fold_playEventAt_frame2)

lemma funpow_body_frame:
  "tempo ((schedulerLoop_body now ^^ n) s) = tempo s"
  "events ((schedulerLoop_body now ^^ n) s) = events s"
  "activeTimers ((schedulerLoop_body now ^^ n) s) = activeTimers s"
  "schedulerTimer ((schedulerLoop_body now ^^ n) s) = schedulerTimer s"
  by (induction n) (simp_all add: body_frame)

lemma schedulerLoop_returns:
  assumes "audioCtx s = Some c" "0 < tempo s"
  shows "\<exists>n. schedulerLoop s = Some (Returned ((schedulerLoop_body (currentTime c) ^^ n) s))"
  using schedulerLoop_while_terminates[OF assms(2), of "currentTime c"] assms(1)
  by (auto simp: schedulerLoop_def)

lemma session_started_eq:
  "session_started = (initial True)\<lparr>ctaHidden := True, controlsHidden := False,
     audioCtx := Some new_audio, loopStartTime := 1/10, nextStepTime := 1/10, currentStep := 0,
     timerCounter := 1, activeTimers := [1], schedulerTimer := Some 1\<rparr>"
  by (simp add: session_started_def onStartGesture_resume_def startScheduler_def initial_def
      timer_set_def ensureAudio_def setInterval_def new_audio_def Let_def)

text \<open>
  C1.  With the audio engine initialised and a positive tempo, a scheduler tick returns,
  and what it returns is the loop body run \<open>n\<close> times, where \<open>nextStepTime\<close> was below
  \<open>now + LOOKAHEAD\<close> before each of the \<open>n\<close> passes and is not below it afterwards.  One
  pass plays every event of the pattern whose step is \<open>currentStep\<close> at \<open>nextStepTime\<close>,
  in pattern order, tells the visual sink about each of them with the latency
  \<open>nextStepTime - now\<close>, adds \<open>(60 / tempo) / SUBDIV\<close> to \<open>nextStepTime\<close>, sets
  \<open>currentStep\<close> to \<open>(currentStep + 1) mod steps\<close>, and stores the new \<open>nextStepTime\<close>
  in \<open>loopStartTime\<close> exactly when the new \<open>currentStep\<close> is 0.
\<close>

theorem schedulerLoop_tick:
  assumes "audioCtx s = Some ctx" and "0 < tempo s"
  shows "(\<exists>n. schedulerLoop s = Some (Returned ((schedulerLoop_body (currentTime ctx) ^^ n) s))
            \<and> (\<forall>k<n. nextStepTime ((schedulerLoop_body (currentTime ctx) ^^ k) s)
                         < currentTime ctx + LOOKAHEAD)
            \<and> \<not> nextStepTime ((schedulerLoop_body (currentTime ctx) ^^ n) s)
                   < currentTime ctx + LOOKAHEAD)
         \<and> (\<forall>a now. 0 < tempo a \<longrightarrow>
               schedulerLoop_body now a =
                 (fold (\<lambda>ev. playEventAt ev (nextStepTime a))
                       (filter (\<lambda>e. step e = currentStep a) (events a)) a)
                   \<lparr>visualLog := visualLog a @ map (\<lambda>e. (e, nextStepTime a - now))
                                     (filter (\<lambda>e. step e = currentStep a) (events a)),
                    nextStepTime := nextStepTime a + (60 / real_of_int (tempo a)) / real SUBDIV,
                    currentStep := (currentStep a + 1) mod steps,
                    loopStartTime :=
                      (if (currentStep a + 1) mod steps = 0
                       then nextStepTime a + (60 / real_of_int (tempo a)) / real SUBDIV
                       else loopStartTime a)\<rparr>)"
proof (intro conjI allI impI)
  from schedulerLoop_while_terminates[OF assms(2), of "currentTime ctx"]
  show "\<exists>n. schedulerLoop s = Some (Returned ((schedulerLoop_body (currentTime ctx) ^^ n) s))
            \<and> (\<forall>k<n. nextStepTime ((schedulerLoop_body (currentTime ctx) ^^ k) s)
                         < currentTime ctx + LOOKAHEAD)
            \<and> \<not> nextStepTime ((schedulerLoop_body (currentTime ctx) ^^ n) s)
                   < currentTime ctx + LOOKAHEAD"
    using assms(1) by (auto simp: schedulerLoop_def)
next
  fix a now
  show "schedulerLoop_body now a =
          (fold (\<lambda>ev. playEventAt ev (nextStepTime a))
                (filter (\<lambda>e. step e = currentStep a) (events a)) a)
            \<lparr>visualLog := visualLog a @ map (\<lambda>e. (e, nextStepTime a - now))
                              (filter (\<lambda>e. step e = currentStep a) (events a)),
             nextStepTime := nextStepTime a + (60 / real_of_int (tempo a)) / real SUBDIV,
             currentStep := (currentStep a + 1) mod steps,
             loopStartTime :=
               (if (currentStep a + 1) mod steps = 0
                then nextStepTime a + (60 / real_of_int (tempo a)) / real SUBDIV
                else loopStartTime a)\<rparr>"
    by (rule schedulerLoop_body_eq)
qed

theorem schedulerLoop_tick_witness:
  "audioCtx session_playing = Some (new_audio\<lparr>currentTime := 1 / 5\<rparr>)
   \<and> 0 < tempo session_playing
   \<and> (\<exists>n. schedulerLoop session_playing
            = Some (Returned ((schedulerLoop_body (1 / 5) ^^ n) session_playing)))"
proof -
  have h1: "audioCtx session_playing = Some (new_audio\<lparr>currentTime := 1 / 5\<rparr>)"
    by (simp add: session_playing_def session_started_eq advanceClock_def initial_def new_audio_def)
  have h2: "0 < tempo session_playing"
    by (simp add: session_playing_def session_started_eq advanceClock_def initial_def DEFAULT_TEMPO_def)
  from schedulerLoop_tick[OF h1 h2] h1 h2 show ?thesis
    by auto
qed

subsection \<open>The invariant of the reachable states\<close>

lemma steps_pos: "0 < steps"
  by (simp add: steps_def LOOP_BEATS_def SUBDIV_def)

lemma ensureAudio_cases:
  "ensureAudio s = Returned s \<and> audioCtx s \<noteq> None
   \<or> ensureAudio s = Threw TypeError s \<and> audioCtx s = None
   \<or> ensureAudio s = Returned (s\<lparr>audioCtx := Some new_audio\<rparr>) \<and> audioCtx s = None"
  by (simp add: ensureAudio_def)

lemma invariant_ensureAudio: "invariant s \<Longrightarrow> invariant (final (ensureAudio s))"
  using ensureAudio_cases[of s] by (auto simp: invariant_def)

lemma invariant_startScheduler: "invariant s \<Longrightarrow> invariant (final (startScheduler s))"
  using ensureAudio_cases[of s]
  by (auto simp: invariant_def startScheduler_def timer_set_def setInterval_def Let_def
           split: option.splits outcome.splits)

lemma invariant_stopScheduler: "invariant s \<Longrightarrow> invariant (stopScheduler s)"
  by (auto simp: invariant_def stopScheduler_def timer_set_def split: option.splits)

lemma invariant_funpow_body:
  assumes "invariant s"
  shows "invariant ((schedulerLoop_body now ^^ n) s)"
proof -
  have "audioCtx ((schedulerLoop_body now ^^ n) s) \<noteq> None" if "audioCtx s \<noteq> None"
  proof -
    from that obtain c where "audioCtx s = Some c" by blast
    from funpow_body_voices[OF this, of n now] show ?thesis by auto
  qed
  with assms show ?thesis
    by (simp add: invariant_def funpow_body_frame)
qed

lemma invariant_schedulerLoop:
  assumes "invariant s" "schedulerLoop s = Some out"
  shows "invariant (final out)"
proof (cases "audioCtx s")
  case None
  with assms show ?thesis by (auto simp: schedulerLoop_def)
next
  case (Some c)
  have "0 < tempo s" using assms(1) by (simp add: invariant_def)
  from schedulerLoop_returns[OF Some this] assms(2)
  obtain n where "out = Returned ((schedulerLoop_body (currentTime c) ^^ n) s)" by auto
  then show ?thesis using invariant_funpow_body[OF assms(1)] by simp
qed

lemma invariant_simple:
  "0 < v \<Longrightarrow> invariant s \<Longrightarrow> invariant (onTempoInput v s)"
  "invariant s \<Longrightarrow> invariant (setDelay on s)"
  "invariant s \<Longrightarrow> invariant (setReverb on s)"
  "invariant s \<Longrightarrow> invariant (exportPattern s)"
  "invariant s \<Longrightarrow> invariant (onPointerUp s)"
  "invariant s \<Longrightarrow> invariant (advanceClock d s)"
  by (auto simp: invariant_def onTempoInput_def setDelay_def setReverb_def exportPattern_def
      onPointerUp_def advanceClock_def Let_def split: option.splits)

lemma playEventAt_invariant: "invariant s \<Longrightarrow> invariant (playEventAt ev t s)"
  by (auto simp: invariant_def playEventAt_def split: option.splits)

lemma placeEventAt_events:
  "events (final (placeEventAt nx ny rid rc s)) = events s
   \<or> (\<exists>ev. events (final (placeEventAt nx ny rid rc s)) = events s @ [ev]
          \<and> step ev = (currentStep s + 1) mod steps)"
  using ensureAudio_cases[of s]
  by (auto simp: placeEventAt_def Let_def triggerVisualEvent_def playEventAt_def
           split: option.splits outcome.splits)

lemma placeEventAt_frame:
  "activeTimers (final (placeEventAt nx ny rid rc s)) = activeTimers s"
  "schedulerTimer (final (placeEventAt nx ny rid rc s)) = schedulerTimer s"
  "tempo (final (placeEventAt nx ny rid rc s)) = tempo s"
  "audioCtx s \<noteq> None \<Longrightarrow> audioCtx (final (placeEventAt nx ny rid rc s)) \<noteq> None"
  using ensureAudio_cases[of s]
  by (auto simp: placeEventAt_def Let_def triggerVisualEvent_def playEventAt_def
           split: option.splits outcome.splits)

lemma invariant_placeEventAt:
  assumes "invariant s"
  shows "invariant (final (placeEventAt nx ny rid rc s))"
proof -
  have "\<forall>e \<in> set (events (final (placeEventAt nx ny rid rc s))). step e < steps"
    using placeEventAt_events[of nx ny rid rc s] assms steps_pos
    by (auto simp: invariant_def)
  with assms show ?thesis
    by (simp add: invariant_def placeEventAt_frame)
qed

lemma onStartGesture_enter_invariant: "invariant s \<Longrightarrow> invariant (onStartGesture_enter s)"
  by (simp add: onStartGesture_enter_def invariant_ensureAudio)

lemma invariant_display:
  "invariant (s\<lparr>ctaHidden := a\<rparr>) = invariant s"
  "invariant (s\<lparr>controlsHidden := b\<rparr>) = invariant s"
  "invariant (s\<lparr>pointer_down := c\<rparr>) = invariant s"
  "invariant (s\<lparr>pointer_x := x\<rparr>) = invariant s"
  "invariant (s\<lparr>pointer_y := y\<rparr>) = invariant s"
  "invariant (s\<lparr>draggingEvent := d\<rparr>) = invariant s"
  "invariant (s\<lparr>lastPlacedEventId := l\<rparr>) = invariant s"
  by (simp_all add: invariant_def)

lemma invariant_onStartGesture_resume:
  "invariant s \<Longrightarrow> invariant (final (onStartGesture_resume s))"
  by (simp add: onStartGesture_resume_def Let_def invariant_startScheduler invariant_display)

lemma onPointerDown_final:
  "\<exists>s1 d l. (s1 = final (placeEventAt px py rid rc (s\<lparr>pointer_down := True, pointer_x := px, pointer_y := py\<rparr>))
             \<or> s1 = onStartGesture_enter (s\<lparr>pointer_down := True, pointer_x := px, pointer_y := py\<rparr>))
     \<and> (final (onPointerDown px py rid rc s) = s1
        \<or> final (onPointerDown px py rid rc s) = s1\<lparr>draggingEvent := d, lastPlacedEventId := l\<rparr>
        \<or> final (onPointerDown px py rid rc s) = s1\<lparr>draggingEvent := d\<rparr>)"
  by (auto simp: onPointerDown_def Let_def split: outcome.splits option.splits)

lemma invariant_onPointerDown:
  assumes "invariant s"
  shows "invariant (final (onPointerDown px py rid rc s))"
proof -
  let ?s0 = "s\<lparr>pointer_down := True, pointer_x := px, pointer_y := py\<rparr>"
  have i0: "invariant ?s0" using assms by (simp add: invariant_display)
  from onPointerDown_final[of px py rid rc s] obtain s1 d l where
    s1: "s1 = final (placeEventAt px py rid rc ?s0) \<or> s1 = onStartGesture_enter ?s0"
    and f: "final (onPointerDown px py rid rc s) = s1
        \<or> final (onPointerDown px py rid rc s) = s1\<lparr>draggingEvent := d, lastPlacedEventId := l\<rparr>
        \<or> final (onPointerDown px py rid rc s) = s1\<lparr>draggingEvent := d\<rparr>"
    by blast
  from s1 i0 have "invariant s1"
    using invariant_placeEventAt onStartGesture_enter_invariant by blast
  with f show ?thesis by (auto simp: invariant_display)
qed

lemma update_first_length [simp]: "length (update_first P f xs) = length xs"
  by (induction xs) simp_all

lemma update_first_map:
  "(\<And>x. g (f x) = g x) \<Longrightarrow> map g (update_first P f xs) = map g xs"
  by (induction xs) simp_all

lemma drag_event_keeps:
  "ev_id (drag_event px py e) = ev_id e"
  "step (drag_event px py e) = step e"
  "(drag_event px py e)\<lparr>gain := g, freq := f\<rparr> = e\<lparr>gain := g, freq := f\<rparr>"
  by (simp_all add: drag_event_def Let_def)

lemma onPointerMove_events:
  "events (onPointerMove px py s) = events s
   \<or> (\<exists>d. events (onPointerMove px py s)
            = update_first (\<lambda>x. ev_id x = d) (drag_event px py) (events s))"
  by (auto simp: onPointerMove_def Let_def split: option.splits)

lemma onPointerMove_map:
  assumes "\<And>x. g (drag_event px py x) = g x"
  shows "map g (events (onPointerMove px py s)) = map g (events s)"
  using onPointerMove_events[of px py s] update_first_map[of g "drag_event px py", OF assms]
  by auto

lemma onPointerMove_frame:
  "activeTimers (onPointerMove px py s) = activeTimers s"
  "schedulerTimer (onPointerMove px py s) = schedulerTimer s"
  "tempo (onPointerMove px py s) = tempo s"
  "audioCtx (onPointerMove px py s) = audioCtx s"
  by (simp_all add: onPointerMove_def Let_def split: option.splits)

lemma invariant_onPointerMove:
  assumes "invariant s"
  shows "invariant (onPointerMove px py s)"
proof -
  have "map step (events (onPointerMove px py s)) = map step (events s)"
    by (rule onPointerMove_map) (rule drag_event_keeps)
  then have "step ` set (events (onPointerMove px py s)) = step ` set (events s)"
    by (metis set_map)
  moreover have "\<forall>n \<in> step ` set (events s). n < steps"
    using assms by (simp add: invariant_def)
  ultimately have "\<forall>n \<in> step ` set (events (onPointerMove px py s)). n < steps"
    by simp
  then have "\<forall>e \<in> set (events (onPointerMove px py s)). step e < steps"
    by blast
  with assms show ?thesis by (simp add: invariant_def onPointerMove_frame)
qed

lemma invariant_run:
  assumes "invariant s" "enabled a s" "run a s = Some out"
  shows "invariant (final out)"
proof (cases a)
  case Tick
  with assms show ?thesis using invariant_schedulerLoop by simp
next
  case (TempoInput v)
  with assms show ?thesis using invariant_simple(1) by auto
qed (use assms in \<open>auto simp: invariant_simple toggleDelay_def toggleReverb_def
      onStartGesture_enter_invariant invariant_onStartGesture_resume invariant_stopScheduler
      invariant_onPointerDown invariant_onPointerMove\<close>)

lemma invariant_initial: "invariant (initial b)"
  by (simp add: invariant_def initial_def DEFAULT_TEMPO_def)

lemma reachable_invariant: "reachable s \<Longrightarrow> invariant s"
  by (induction rule: reachable.induct) (auto intro: invariant_initial invariant_run)

subsection \<open>Tempo\<close>

text \<open>
  C2.  For a positive tempo \<open>T\<close>, a pass of the scheduler loop made while the tempo is
  \<open>T\<close> moves \<open>nextStepTime\<close> by \<open>60 / T / SUBDIV\<close> seconds.  The tempo listener writes
  the tempo, its label and \<open>beatLength\<close> and nothing else: \<open>nextStepTime\<close>,
  \<open>loopStartTime\<close>, \<open>currentStep\<close>, the notes already handed to the audio engine and
  the notifications already sent keep their values, and the first pass after the change
  uses the new step length.  A tick that follows the change returns, and the notes
  dispatched before it are still there, unchanged and in front of the new ones.
\<close>

theorem tempo_change_affects_later_increments:
  assumes "0 < T"
  shows "(tempo s = T \<longrightarrow>
            nextStepTime (schedulerLoop_body now s) - nextStepTime s
              = 60 / real_of_int T / real SUBDIV)
       \<and> onTempoInput T s = s\<lparr>tempo := T, tempoVal := T, beatLength := 60 / real_of_int T\<rparr>
       \<and> nextStepTime (onTempoInput T s) = nextStepTime s
       \<and> loopStartTime (onTempoInput T s) = loopStartTime s
       \<and> currentStep (onTempoInput T s) = currentStep s
       \<and> audioCtx (onTempoInput T s) = audioCtx s
       \<and> visualLog (onTempoInput T s) = visualLog s
       \<and> nextStepTime (schedulerLoop_body now (onTempoInput T s)) - nextStepTime s
            = 60 / real_of_int T / real SUBDIV
       \<and> (\<forall>c. audioCtx s = Some c \<longrightarrow>
             (\<exists>n vs. schedulerLoop (onTempoInput T s)
                        = Some (Returned ((schedulerLoop_body (currentTime c) ^^ n) (onTempoInput T s)))
                    \<and> audioCtx ((schedulerLoop_body (currentTime c) ^^ n) (onTempoInput T s))
                        = Some (c\<lparr>voices := voices c @ vs\<rparr>)))"
proof -
  have frame: "onTempoInput T s = s\<lparr>tempo := T, tempoVal := T, beatLength := 60 / real_of_int T\<rparr>"
    by (simp add: onTempoInput_def Let_def)
  have later: "\<exists>n vs. schedulerLoop (onTempoInput T s)
                        = Some (Returned ((schedulerLoop_body (currentTime c) ^^ n) (onTempoInput T s)))
                    \<and> audioCtx ((schedulerLoop_body (currentTime c) ^^ n) (onTempoInput T s))
                        = Some (c\<lparr>voices := voices c @ vs\<rparr>)" if c: "audioCtx s = Some c" for c
  proof -
    have a: "audioCtx (onTempoInput T s) = Some c" using c by (simp add: frame)
    have t: "0 < tempo (onTempoInput T s)" using assms by (simp add: frame)
    from schedulerLoop_returns[OF a t] obtain n where
      n: "schedulerLoop (onTempoInput T s)
            = Some (Returned ((schedulerLoop_body (currentTime c) ^^ n) (onTempoInput T s)))" ..
    from funpow_body_voices[OF a] obtain vs where
      "audioCtx ((schedulerLoop_body (currentTime c) ^^ n) (onTempoInput T s))
         = Some (c\<lparr>voices := voices c @ vs\<rparr>)" by blast
    with n show ?thesis by blast
  qed
  show ?thesis
    apply (intro conjI allI impI)
            apply (simp add: body_nextStepTime)
           apply (rule frame)
          apply (simp add: frame)
         apply (simp add: frame)
        apply (simp add: frame)
       apply (simp add: frame)
      apply (simp add: frame)
     apply (simp add: body_nextStepTime frame)
    apply (erule later)
    done
qed

theorem tempo_change_affects_later_increments_witness:
  "(0::int) < 90
   \<and> nextStepTime (schedulerLoop_body (1 / 5) (onTempoInput 90 session_playing))
        - nextStepTime session_playing = 1 / 6
   \<and> nextStepTime (onTempoInput 90 session_playing) = 1 / 10"
proof -
  have h: "(0::int) < 90" by simp
  have n: "nextStepTime session_playing = 1 / 10"
    by (simp add: session_playing_def session_started_eq advanceClock_def initial_def new_audio_def)
  note t = tempo_change_affects_later_increments[OF h, of session_playing "1 / 5"]
  from t have a: "nextStepTime (schedulerLoop_body (1 / 5) (onTempoInput 90 session_playing))
        - nextStepTime session_playing = 60 / real_of_int 90 / real SUBDIV"
    by blast
  from t have b: "nextStepTime (onTempoInput 90 session_playing) = nextStepTime session_playing"
    by blast
  have c: "60 / real_of_int 90 / real SUBDIV = 1 / 6"
    by (simp add: SUBDIV_def)
  show ?thesis using h a b by (simp only: c n simp_thms)
qed

subsection \<open>Transport\<close>

lemma session_started_reachable: "reachable session_started"
  unfolding session_started_def
  by (rule reachable_run[OF reachable_initial, where a = StartGestureResume]) simp_all

text \<open>
  C3.  In a reachable state whose scheduler interval is installed, \<open>startScheduler\<close>
  returns at once with the state untouched; \<open>currentStep\<close>, \<open>nextStepTime\<close> and
  \<open>loopStartTime\<close> keep their values, no interval is added, and the browser holds exactly
  one interval that calls \<open>schedulerLoop\<close>.
\<close>

theorem start_while_running_is_noop:
  assumes "reachable s" and "timer_set (schedulerTimer s)"
  shows "startScheduler s = Returned s
       \<and> currentStep (final (startScheduler s)) = currentStep s
       \<and> nextStepTime (final (startScheduler s)) = nextStepTime s
       \<and> loopStartTime (final (startScheduler s)) = loopStartTime s
       \<and> activeTimers (final (startScheduler s)) = activeTimers s
       \<and> length (activeTimers (final (startScheduler s))) = 1"
proof -
  have r: "startScheduler s = Returned s"
    using assms(2) by (simp add: startScheduler_def)
  from reachable_invariant[OF assms(1)] assms(2) have "length (activeTimers s) = 1"
    by (auto simp: invariant_def timer_set_def split: option.splits)
  with r show ?thesis by simp
qed

theorem start_while_running_is_noop_witness:
  "reachable session_started \<and> timer_set (schedulerTimer session_started)
   \<and> startScheduler session_started = Returned session_started
   \<and> activeTimers (final (startScheduler session_started)) = [1]"
proof -
  have h: "timer_set (schedulerTimer session_started)"
    by (simp add: session_started_eq timer_set_def)
  have a: "activeTimers session_started = [1]"
    by (simp add: session_started_eq initial_def)
  from start_while_running_is_noop[OF session_started_reachable h] h a
    session_started_reachable
  show ?thesis by simp
qed

text \<open>
  C4.  Where an audio context exists or can be created, \<open>startScheduler\<close> after
  \<open>stopScheduler\<close> returns with \<open>currentStep = 0\<close>, \<open>loopStartTime\<close> one tenth of a
  second after the audio clock and \<open>nextStepTime = loopStartTime\<close>, whatever the three
  held before, and the interval is installed again.  The same holds for \<open>startScheduler\<close>
  in any state without an installed interval.
\<close>

theorem stop_then_start_restarts:
  assumes "audioCtx s \<noteq> None \<or> audioSupported s"
  shows "(\<exists>s' c. startScheduler (stopScheduler s) = Returned s'
              \<and> audioCtx s' = Some c
              \<and> (audioCtx s \<noteq> None \<longrightarrow> audioCtx s' = audioCtx s)
              \<and> currentStep s' = 0
              \<and> loopStartTime s' = currentTime c + 1 / 10
              \<and> nextStepTime s' = loopStartTime s'
              \<and> timer_set (schedulerTimer s'))
       \<and> (\<not> timer_set (schedulerTimer s) \<longrightarrow>
            (\<exists>s' c. startScheduler s = Returned s'
              \<and> audioCtx s' = Some c
              \<and> (audioCtx s \<noteq> None \<longrightarrow> audioCtx s' = audioCtx s)
              \<and> currentStep s' = 0
              \<and> loopStartTime s' = currentTime c + 1 / 10
              \<and> nextStepTime s' = loopStartTime s'
              \<and> timer_set (schedulerTimer s')))"
proof -
  have start: "\<exists>s' c. startScheduler a = Returned s'
              \<and> audioCtx s' = Some c
              \<and> (audioCtx a \<noteq> None \<longrightarrow> audioCtx s' = audioCtx a)
              \<and> currentStep s' = 0
              \<and> loopStartTime s' = currentTime c + 1 / 10
              \<and> nextStepTime s' = loopStartTime s'
              \<and> timer_set (schedulerTimer s')"
    if "\<not> timer_set (schedulerTimer a)" "audioCtx a \<noteq> None \<or> audioSupported a" for a
    using that
    by (auto simp: startScheduler_def ensureAudio_def setInterval_def timer_set_def Let_def)
  have stopped: "\<not> timer_set (schedulerTimer (stopScheduler s))"
    by (auto simp: stopScheduler_def timer_set_def split: option.splits)
  have kept: "audioCtx (stopScheduler s) = audioCtx s" "audioSupported (stopScheduler s) = audioSupported s"
    by (simp_all add: stopScheduler_def split: option.splits)
  from start[OF stopped] assms kept start show ?thesis
    by simp
qed

theorem stop_then_start_restarts_witness:
  "audioCtx session_playing = Some (new_audio\<lparr>currentTime := 1 / 5\<rparr>)
   \<and> (\<exists>s'. startScheduler (stopScheduler session_playing) = Returned s'
          \<and> currentStep s' = 0 \<and> loopStartTime s' = 3 / 10 \<and> nextStepTime s' = 3 / 10)"
proof -
  have c: "audioCtx session_playing = Some (new_audio\<lparr>currentTime := 1 / 5\<rparr>)"
    by (simp add: session_playing_def session_started_eq advanceClock_def initial_def new_audio_def)
  then have h: "audioCtx session_playing \<noteq> None \<or> audioSupported session_playing"
    by simp
  from stop_then_start_restarts[OF h] obtain s' c' where
    s': "startScheduler (stopScheduler session_playing) = Returned s'"
      "audioCtx s' = Some c'" "audioCtx session_playing \<noteq> None \<longrightarrow> audioCtx s' = audioCtx session_playing"
      "currentStep s' = 0" "loopStartTime s' = currentTime c' + 1 / 10" "nextStepTime s' = loopStartTime s'"
    by blast
  from s'(2,3) c have "c' = new_audio\<lparr>currentTime := 1 / 5\<rparr>" by simp
  then have "currentTime c' + 1 / 10 = 3 / 10" by simp
  with s' c show ?thesis by simp
qed

subsection \<open>Without an audio engine\<close>

text \<open>
  C5, as stated, fails for the tick: \<open>schedulerLoop\<close> reads \<open>audioCtx.currentTime\<close>
  without a guard, so in the initial state, where no audio context exists yet, it throws
  a TypeError instead of returning.
\<close>

theorem tick_without_engine_throws:
  "audioCtx (initial True) = None
   \<and> schedulerLoop (initial True) = Some (Threw TypeError (initial True))
   \<and> schedulerLoop (initial True) \<noteq> Some (Returned (initial True))"
  by (simp add: schedulerLoop_def initial_def)

text \<open>
  C5, amended.  \<open>playEventAt\<close> without an audio context returns with the state
  untouched.  The tick is protected at its source instead: \<open>startScheduler\<close> in a state
  without an installed interval returns only with an audio context in place, and in every
  reachable state in which the interval callback can fire the audio context exists and
  the tick returns.
\<close>

theorem engine_guards:
  "(audioCtx s = None \<longrightarrow> playEventAt ev t s = s)
   \<and> (\<forall>a. \<not> timer_set (schedulerTimer a) \<and> startScheduler a = Returned s \<longrightarrow> audioCtx s \<noteq> None)
   \<and> (reachable s \<and> enabled Tick s \<longrightarrow>
        audioCtx s \<noteq> None \<and> (\<exists>s'. run Tick s = Some (Returned s')))"
proof (intro conjI allI impI)
  assume "audioCtx s = None"
  then show "playEventAt ev t s = s" by (simp add: playEventAt_def)
next
  fix a
  assume "\<not> timer_set (schedulerTimer a) \<and> startScheduler a = Returned s"
  then show "audioCtx s \<noteq> None"
    by (auto simp: startScheduler_def ensureAudio_def setInterval_def timer_set_def Let_def
             split: if_splits option.splits)
next
  assume a: "reachable s \<and> enabled Tick s"
  then have i: "invariant s" by (simp add: reachable_invariant)
  from a i have "schedulerTimer s \<noteq> None"
    by (auto simp: invariant_def split: option.splits)
  with i show "audioCtx s \<noteq> None" by (simp add: invariant_def)
  then obtain c where c: "audioCtx s = Some c" by blast
  from i have "0 < tempo s" by (simp add: invariant_def)
  from schedulerLoop_returns[OF c this] show "\<exists>s'. run Tick s = Some (Returned s')"
    by auto
qed

theorem engine_guards_witness:
  "audioCtx (initial True) = None
   \<and> playEventAt demo_event 0 (initial True) = initial True
   \<and> reachable session_started \<and> enabled Tick session_started
   \<and> (\<exists>s'. run Tick session_started = Some (Returned s'))"
proof -
  have n: "audioCtx (initial True) = None" by (simp add: initial_def)
  have e: "enabled Tick session_started" by (simp add: session_started_eq initial_def)
  from engine_guards[of "initial True" demo_event 0] n
  have p: "playEventAt demo_event 0 (initial True) = initial True" by blast
  from engine_guards[of session_started] session_started_reachable e
  have "\<exists>s'. run Tick session_started = Some (Returned s')" by blast
  with n p e session_started_reachable show ?thesis by blast
qed

subsection \<open>Effect sends\<close>

text \<open>
  C6.  A call of \<open>playEventAt\<close> with an audio context adds one note whose envelope is
  connected to the delay exactly if \<open>isDelayOn\<close> holds at the call and to the reverb
  exactly if \<open>isReverbOn\<close> holds at the call.  \<open>setDelay\<close> and \<open>setReverb\<close> write their
  flag and the label of their button; the audio context, with its effect graph and the
  connections of every note dispatched so far, is the same afterwards, and a note played
  after a toggle is appended behind the earlier note, which keeps its routing.
\<close>

theorem effect_routing_latched:
  "(\<forall>c. audioCtx s = Some c \<longrightarrow>
       audioCtx (playEventAt ev t s) = Some (c\<lparr>voices := voices c @ [playEventAt_voice ev t s]\<rparr>)
       \<and> ((Env, GlobalDelay) \<in> set (connections (playEventAt_voice ev t s)) \<longleftrightarrow> isDelayOn s)
       \<and> ((Env, GlobalReverb) \<in> set (connections (playEventAt_voice ev t s)) \<longleftrightarrow> isReverbOn s))
   \<and> audioCtx (setDelay on (playEventAt ev t s)) = audioCtx (playEventAt ev t s)
   \<and> audioCtx (setReverb on (playEventAt ev t s)) = audioCtx (playEventAt ev t s)
   \<and> (\<forall>c ev' t'. audioCtx s = Some c \<longrightarrow>
        (\<exists>v. audioCtx (playEventAt ev' t' (setDelay on (playEventAt ev t s)))
                = Some (c\<lparr>voices := voices c @ [playEventAt_voice ev t s, v]\<rparr>)))
   \<and> setDelay on s = s\<lparr>isDelayOn := on,
                         toggleDelayBtn := ''Delay: '' @ (if on then ''on'' else ''off'')\<rparr>
   \<and> setReverb on s = s\<lparr>isReverbOn := on,
                          toggleReverbBtn := ''Reverb: '' @ (if on then ''on'' else ''off'')\<rparr>
   \<and> audioCtx (setDelay on s) = audioCtx s
   \<and> audioCtx (setReverb on s) = audioCtx s"
  by (auto simp: playEventAt_def playEventAt_voice_def setDelay_def setReverb_def Let_def)

theorem effect_routing_latched_witness:
  "audioCtx session_playing = Some (new_audio\<lparr>currentTime := 1 / 5\<rparr>)
   \<and> connections (playEventAt_voice demo_event 1 (setDelay True session_playing))
       = [(Osc, Filter), (Filter, Env), (Env, Master), (Env, GlobalDelay)]
   \<and> (Env, GlobalDelay) \<in> set (connections (playEventAt_voice demo_event 1 (setDelay True session_playing)))
   \<and> (Env, GlobalReverb) \<notin> set (connections (playEventAt_voice demo_event 1 (setDelay True session_playing)))"
proof -
  have c: "audioCtx (setDelay True session_playing) = Some (new_audio\<lparr>currentTime := 1 / 5\<rparr>)"
    by (simp add: setDelay_def session_playing_def session_started_eq advanceClock_def initial_def new_audio_def)
  have c0: "audioCtx session_playing = Some (new_audio\<lparr>currentTime := 1 / 5\<rparr>)"
    by (simp add: session_playing_def session_started_eq advanceClock_def initial_def new_audio_def)
  have d: "isDelayOn (setDelay True session_playing)" "\<not> isReverbOn (setDelay True session_playing)"
    by (simp_all add: setDelay_def session_playing_def session_started_eq advanceClock_def initial_def new_audio_def)
  from effect_routing_latched[of "setDelay True session_playing" demo_event 1] c d
  have "(Env, GlobalDelay) \<in> set (connections (playEventAt_voice demo_event 1 (setDelay True session_playing)))"
    "(Env, GlobalReverb) \<notin> set (connections (playEventAt_voice demo_event 1 (setDelay True session_playing)))"
    by blast+
  moreover have "connections (playEventAt_voice demo_event 1 (setDelay True session_playing))
       = [(Osc, Filter), (Filter, Env), (Env, Master), (Env, GlobalDelay)]"
    using d by (simp add: playEventAt_voice_def Let_def)
  ultimately show ?thesis using c0 by blast
qed

subsection \<open>Export\<close>

text \<open>
  C7.  The object that \<open>exportPattern\<close> serialises has the keys \<open>tempo\<close>, \<open>steps\<close> and
  \<open>events\<close>; its \<open>events\<close> array is as long as the pattern, and its element \<open>i\<close> is an
  object with exactly the keys \<open>step\<close>, \<open>freq\<close>, \<open>gain\<close>, \<open>duration\<close>, \<open>color\<close>, \<open>type\<close>,
  in this order, holding the values of event \<open>i\<close>; neither the id nor the base frequency
  is among the keys.  The export writes the download link only, so the events and the
  tempo are the same afterwards (the number of steps is a constant).
\<close>

theorem exportPattern_snapshot:
  "(\<exists>es. exportPattern_out s
            = JObj [(''tempo'', JInt (tempo s)), (''steps'', JInt (int steps)), (''events'', JArr es)]
         \<and> length es = length (events s)
         \<and> (\<forall>i < length es. \<exists>kv. es ! i = JObj kv
                \<and> map fst kv = [''step'', ''freq'', ''gain'', ''duration'', ''color'', ''type'']
                \<and> ''id'' \<notin> fst ` set kv \<and> ''baseFreq'' \<notin> fst ` set kv
                \<and> ''baseFrequency'' \<notin> fst ` set kv
                \<and> map snd kv = [JInt (int (step (events s ! i))), JNum (freq (events s ! i)),
                                 JNum (gain (events s ! i)), JNum (duration (events s ! i)),
                                 JStr (color (events s ! i)), JStr (ev_type (events s ! i))]))
   \<and> exportPattern s = s\<lparr>download := Some (''musicy-pattern.json'', exportPattern_out s)\<rparr>
   \<and> events (exportPattern s) = events s
   \<and> tempo (exportPattern s) = tempo s"
  by (simp add: exportPattern_out_def exportPattern_def)

theorem exportPattern_snapshot_witness:
  "exportPattern_out session_playing
     = JObj [(''tempo'', JInt 110), (''steps'', JInt 16),
             (''events'', JArr [JObj [(''step'', JInt 0), (''freq'', JNum 440), (''gain'', JNum (6 / 10)),
                                      (''duration'', JNum (18 / 100)), (''color'', JStr ''#8b5cf6''),
                                      (''type'', JStr ''sine'')]])]
   \<and> events (exportPattern session_playing) = [demo_event]"
proof -
  have e: "events session_playing = [demo_event]"
    by (simp add: session_playing_def session_started_eq advanceClock_def initial_def new_audio_def)
  have t: "tempo session_playing = 110"
    by (simp add: session_playing_def session_started_eq advanceClock_def initial_def new_audio_def DEFAULT_TEMPO_def)
  have o: "exportPattern_out session_playing
     = JObj [(''tempo'', JInt 110), (''steps'', JInt 16),
             (''events'', JArr [JObj [(''step'', JInt 0), (''freq'', JNum 440), (''gain'', JNum (6 / 10)),
                                      (''duration'', JNum (18 / 100)), (''color'', JStr ''#8b5cf6''),
                                      (''type'', JStr ''sine'')]])]"
    by (simp add: exportPattern_out_def e t demo_event_def steps_def LOOP_BEATS_def SUBDIV_def)
  from exportPattern_snapshot[of session_playing] have "events (exportPattern session_playing) = events session_playing"
    by blast
  with o e show ?thesis by simp
qed

subsection \<open>Envelope\<close>

text \<open>
  C8.  For an event of the data model (a gain and a duration other than 0, for which
  \<open>||\<close> keeps the event's own values) and an existing audio context, \<open>playEventAt\<close> adds
  one note: its gain starts at 0.0001 and is set to 0.0001 at \<open>t\<close>, an exponential ramp
  reaches \<open>gain ev\<close> at \<open>t + 0.01\<close>, a second exponential ramp is back at 0.0001 at
  \<open>t + duration ev\<close>, and the oscillator starts at \<open>t\<close> and stops at
  \<open>t + duration ev + 0.02\<close>.
\<close>

theorem playEventAt_envelope:
  assumes "audioCtx s = Some c" and "gain ev \<noteq> 0" and "duration ev \<noteq> 0"
  shows "audioCtx (playEventAt ev t s) = Some (c\<lparr>voices := voices c @ [playEventAt_voice ev t s]\<rparr>)
       \<and> env_gain_value (playEventAt_voice ev t s) = 1 / 10000
       \<and> automation (playEventAt_voice ev t s)
           = [SetValueAtTime (1 / 10000) t,
              ExponentialRampToValueAtTime (gain ev) (t + 10 / 1000),
              ExponentialRampToValueAtTime (1 / 10000) (t + duration ev)]
       \<and> osc_start (playEventAt_voice ev t s) = t
       \<and> osc_stop (playEventAt_voice ev t s) = t + duration ev + 2 / 100"
  using assms by (simp add: playEventAt_def playEventAt_voice_def js_or_num_def Let_def)

theorem playEventAt_envelope_witness:
  "audioCtx session_playing = Some (new_audio\<lparr>currentTime := 1 / 5\<rparr>)
   \<and> gain demo_event \<noteq> 0 \<and> duration demo_event \<noteq> 0
   \<and> automation (playEventAt_voice demo_event 1 session_playing)
        = [SetValueAtTime (1 / 10000) 1,
           ExponentialRampToValueAtTime (6 / 10) (101 / 100),
           ExponentialRampToValueAtTime (1 / 10000) (118 / 100)]
   \<and> osc_stop (playEventAt_voice demo_event 1 session_playing) = 12 / 10"
proof -
  have c: "audioCtx session_playing = Some (new_audio\<lparr>currentTime := 1 / 5\<rparr>)"
    by (simp add: session_playing_def session_started_eq advanceClock_def initial_def new_audio_def)
  have g: "gain demo_event \<noteq> 0" and d: "duration demo_event \<noteq> 0"
    by (simp_all add: demo_event_def)
  from playEventAt_envelope[OF c g d, of 1] c g d show ?thesis
    by (simp add: demo_event_def)
qed

text \<open>
  Outside the data model the defaults of the source take over: a gain of 0 is replaced by
  0.8 and a duration of 0 by \<open>synthDefaults.duration\<close>.
\<close>

lemma playEventAt_voice_defaults:
  assumes "gain ev = 0" and "duration ev = 0"
  shows "automation (playEventAt_voice ev t s)
           = [SetValueAtTime (1 / 10000) t,
              ExponentialRampToValueAtTime (8 / 10) (t + 1 / 100),
              ExponentialRampToValueAtTime (1 / 10000) (t + 18 / 100)]"
  using assms
  by (simp add: playEventAt_voice_def js_or_num_def synthDefaults_duration_def Let_def)

subsection \<open>Events\<close>

lemma events_unchanged_simple:
  "events (onStartGesture_enter s) = events s"
  "events (final (onStartGesture_resume s)) = events s"
  "events (stopScheduler s) = events s"
  "events (onTempoInput v s) = events s"
  "events (toggleDelay s) = events s"
  "events (toggleReverb s) = events s"
  "events (setDelay on s) = events s"
  "events (exportPattern s) = events s"
  "events (onPointerUp s) = events s"
  "events (advanceClock d s) = events s"
  by (auto simp: onStartGesture_enter_def onStartGesture_resume_def startScheduler_def
      ensureAudio_def setInterval_def stopScheduler_def onTempoInput_def toggleDelay_def
      toggleReverb_def setDelay_def setReverb_def exportPattern_def onPointerUp_def
      advanceClock_def Let_def split: option.splits)

lemma schedulerLoop_events:
  assumes "0 < tempo s" "schedulerLoop s = Some out"
  shows "events (final out) = events s"
proof (cases "audioCtx s")
  case None
  with assms show ?thesis by (auto simp: schedulerLoop_def)
next
  case (Some c)
  from schedulerLoop_returns[OF Some assms(1)] assms(2)
  obtain n where "out = Returned ((schedulerLoop_body (currentTime c) ^^ n) s)" by auto
  then show ?thesis by (simp add: funpow_body_frame)
qed

lemma onPointerDown_events:
  "events (final (onPointerDown px py rid rc s)) = events s
   \<or> (\<exists>ev. events (final (onPointerDown px py rid rc s)) = events s @ [ev])"
proof -
  let ?s0 = "s\<lparr>pointer_down := True, pointer_x := px, pointer_y := py\<rparr>"
  from onPointerDown_final[of px py rid rc s] obtain s1 d l where
    s1: "s1 = final (placeEventAt px py rid rc ?s0) \<or> s1 = onStartGesture_enter ?s0"
    and f: "final (onPointerDown px py rid rc s) = s1
        \<or> final (onPointerDown px py rid rc s) = s1\<lparr>draggingEvent := d, lastPlacedEventId := l\<rparr>
        \<or> final (onPointerDown px py rid rc s) = s1\<lparr>draggingEvent := d\<rparr>"
    by blast
  from f have e: "events (final (onPointerDown px py rid rc s)) = events s1" by auto
  from s1 placeEventAt_events[of px py rid rc ?s0]
  have "events s1 = events s \<or> (\<exists>ev. events s1 = events s @ [ev])"
    by (auto simp: events_unchanged_simple)
  with e show ?thesis by simp
qed

lemma run_events:
  assumes "0 < tempo s" "run a s = Some out"
  shows "events (final out) = events s
       \<or> (\<exists>ev. events (final out) = events s @ [ev])
       \<or> (\<exists>px py. a = PointerMove px py \<and> out = Returned (onPointerMove px py s))"
proof (cases a)
  case Tick
  with assms show ?thesis using schedulerLoop_events by simp
next
  case (PointerDown px py rid rc)
  with assms show ?thesis using onPointerDown_events[of px py rid rc s] by auto
qed (use assms in \<open>auto simp: events_unchanged_simple\<close>)


text \<open>
  C9.  In every reachable state each event of the pattern has a step below \<open>steps\<close>.
  Every handler that can run there leads to a reachable state, so the bound holds again,
  and it keeps every event in its place in the pattern with the same id and the same
  step; the pattern can only grow at its end.  A pointer move, whatever is being dragged,
  changes nothing of an event but its gain and its frequency.
\<close>

theorem event_step_and_id_stable:
  assumes "reachable s"
  shows "(\<forall>e \<in> set (events s). step e < steps)
       \<and> (\<forall>a out. enabled a s \<and> run a s = Some out \<longrightarrow>
             reachable (final out)
             \<and> (\<forall>e \<in> set (events (final out)). step e < steps)
             \<and> length (events s) \<le> length (events (final out))
             \<and> (\<forall>i < length (events s).
                   ev_id (events (final out) ! i) = ev_id (events s ! i)
                   \<and> step (events (final out) ! i) = step (events s ! i)))
       \<and> (\<forall>px py. length (events (onPointerMove px py s)) = length (events s)
             \<and> (\<forall>i < length (events s).
                   ev_id (events (onPointerMove px py s) ! i) = ev_id (events s ! i)
                   \<and> step (events (onPointerMove px py s) ! i) = step (events s ! i)
                   \<and> events (onPointerMove px py s) ! i
                       = (events s ! i)\<lparr>gain := gain (events (onPointerMove px py s) ! i),
                                         freq := freq (events (onPointerMove px py s) ! i)\<rparr>))"
proof -
  have inv: "invariant s" using assms by (rule reachable_invariant)
  have move: "length (events (onPointerMove px py s)) = length (events s)
             \<and> (\<forall>i < length (events s).
                   ev_id (events (onPointerMove px py s) ! i) = ev_id (events s ! i)
                   \<and> step (events (onPointerMove px py s) ! i) = step (events s ! i)
                   \<and> events (onPointerMove px py s) ! i
                       = (events s ! i)\<lparr>gain := gain (events (onPointerMove px py s) ! i),
                                         freq := freq (events (onPointerMove px py s) ! i)\<rparr>)" for px py
  proof -
    let ?es' = "events (onPointerMove px py s)"
    have m: "map (\<lambda>e. e\<lparr>gain := 0, freq := 0\<rparr>) ?es' = map (\<lambda>e. e\<lparr>gain := 0, freq := 0\<rparr>) (events s)"
      by (rule onPointerMove_map) (rule drag_event_keeps)
    then have len: "length ?es' = length (events s)"
      by (rule map_eq_imp_length_eq)
    have "ev_id (?es' ! i) = ev_id (events s ! i) \<and> step (?es' ! i) = step (events s ! i)
          \<and> ?es' ! i = (events s ! i)\<lparr>gain := gain (?es' ! i), freq := freq (?es' ! i)\<rparr>"
      if i: "i < length (events s)" for i
    proof -
      from m have "map (\<lambda>e. e\<lparr>gain := 0, freq := 0\<rparr>) ?es' ! i
                     = map (\<lambda>e. e\<lparr>gain := 0, freq := 0\<rparr>) (events s) ! i" by simp
      with i len have eq: "(?es' ! i)\<lparr>gain := 0, freq := 0\<rparr> = (events s ! i)\<lparr>gain := 0, freq := 0\<rparr>"
        by simp
      obtain e' where e': "?es' ! i = e'" by blast
      obtain e where e: "events s ! i = e" by blast
      from eq have "e'\<lparr>gain := 0, freq := 0\<rparr> = e\<lparr>gain := 0, freq := 0\<rparr>" by (simp add: e e')
      then have "ev_id e' = ev_id e \<and> step e' = step e \<and> e' = e\<lparr>gain := gain e', freq := freq e'\<rparr>"
        by (cases e, cases e') simp
      then show ?thesis by (simp add: e e')
    qed
    with len show ?thesis by blast
  qed
  have step_in: "\<forall>e \<in> set (events s). step e < steps"
    using inv by (simp add: invariant_def)
  have act: "reachable (final out)
             \<and> (\<forall>e \<in> set (events (final out)). step e < steps)
             \<and> length (events s) \<le> length (events (final out))
             \<and> (\<forall>i < length (events s).
                   ev_id (events (final out) ! i) = ev_id (events s ! i)
                   \<and> step (events (final out) ! i) = step (events s ! i))"
    if en: "enabled a s" and r: "run a s = Some out" for a out
  proof -
    have re: "reachable (final out)" using assms en r by (rule reachable_run)
    then have "invariant (final out)" by (rule reachable_invariant)
    then have st: "\<forall>e \<in> set (events (final out)). step e < steps"
      by (simp add: invariant_def)
    have t: "0 < tempo s" using inv by (simp add: invariant_def)
    from run_events[OF t r] consider
      (same) "events (final out) = events s"
      | (push) ev where "events (final out) = events s @ [ev]"
      | (drag) px py where "out = Returned (onPointerMove px py s)"
      by blast
    then have "length (events s) \<le> length (events (final out))
             \<and> (\<forall>i < length (events s).
                   ev_id (events (final out) ! i) = ev_id (events s ! i)
                   \<and> step (events (final out) ! i) = step (events s ! i))"
    proof cases
      case same
      then show ?thesis by simp
    next
      case push
      then show ?thesis by (simp add: nth_append)
    next
      case drag
      with move[of px py] show ?thesis by simp
    qed
    with re st show ?thesis by blast
  qed
  from step_in act move show ?thesis by blast
qed

lemma midiToFreq_69: "midiToFreq 69 = 440"
  by (simp add: midiToFreq_def)

lemma onPointerDown_events_placed:
  "\<not> controlsHidden s \<Longrightarrow>
     events (final (onPointerDown px py rid rc s))
       = events (final (placeEventAt px py rid rc (s\<lparr>pointer_down := True, pointer_x := px, pointer_y := py\<rparr>)))"
  by (auto simp: onPointerDown_def Let_def split: outcome.splits option.splits)

lemma session_tapped_reachable: "reachable session_tapped"
  unfolding session_tapped_def
  by (rule reachable_run[OF session_started_reachable,
        where a = "PointerDown (3 / 5) (1 / 8) ''4fzzzxk'' 0"]) simp_all

lemma session_tapped_events:
  "events session_tapped =
     [\<lparr> ev_id = ''e4fzzzxk'', step = 1, freq = 440, baseFreq = 440, gain = 6 / 10,
        duration = 18 / 100, color = ''#8b5cf6'', ev_type = ''sine'' \<rparr>]"
proof -
  have c: "\<not> controlsHidden session_started" by (simp add: session_started_eq initial_def)
  have "Math_round 21 = 21" by (simp add: Math_round_def)
  then have r: "midiToFreq (48 + Math_round 21) = 440" by (simp add: midiToFreq_69)
  show ?thesis
    unfolding session_tapped_def onPointerDown_events_placed[OF c]
    by (simp add: placeEventAt_def session_started_eq initial_def Let_def r midiToFreq_69
        triggerVisualEvent_def playEventAt_def PALETTE_def steps_def LOOP_BEATS_def SUBDIV_def)
qed

theorem event_step_and_id_stable_witness:
  "reachable session_tapped
   \<and> length (events session_tapped) = 1
   \<and> step (events session_tapped ! 0) < steps
   \<and> step (events (onPointerMove (9 / 10) (1 / 10) session_tapped) ! 0) = 1
   \<and> ev_id (events (onPointerMove (9 / 10) (1 / 10) session_tapped) ! 0) = ''e4fzzzxk''"
proof -
  note t = event_step_and_id_stable[OF session_tapped_reachable]
  have l: "length (events session_tapped) = 1" by (simp add: session_tapped_events)
  then have m: "events session_tapped ! 0 \<in> set (events session_tapped)" by simp
  from t have "\<forall>e \<in> set (events session_tapped). step e < steps" by blast
  with m have a: "step (events session_tapped ! 0) < steps" by blast
  from l have "0 < length (events session_tapped)" by simp
  with t have "ev_id (events (onPointerMove (9 / 10) (1 / 10) session_tapped) ! 0) = ev_id (events session_tapped ! 0)
    \<and> step (events (onPointerMove (9 / 10) (1 / 10) session_tapped) ! 0) = step (events session_tapped ! 0)"
    by blast
  then have b: "step (events (onPointerMove (9 / 10) (1 / 10) session_tapped) ! 0) = 1
   \<and> ev_id (events (onPointerMove (9 / 10) (1 / 10) session_tapped) ! 0) = ''e4fzzzxk''"
    by (simp add: session_tapped_events)
  from a b l session_tapped_reachable show ?thesis by blast
qed

subsection \<open>Placement\<close>

text \<open>
  C10.  Where an audio context exists or can be created, \<open>placeEventAt\<close> returns with one
  event appended to the pattern.  Its step is \<open>(currentStep + 1) mod steps\<close>, its gain is
  0.6 and its frequency and base frequency are the MIDI pitch
  \<open>48 + round ((1 - ny) * 24)\<close>.  The same event is appended for every horizontal
  position \<open>nx\<close> and every value of \<open>loopStartTime\<close>, and another vertical position changes
  nothing of it but the two frequencies.
\<close>

theorem placeEventAt_next_step:
  assumes "audioCtx s \<noteq> None \<or> audioSupported s"
  shows "\<exists>s' ev. placeEventAt nx ny rid rc s = Returned s'
          \<and> events s' = events s @ [ev]
          \<and> step ev = (currentStep s + 1) mod steps
          \<and> gain ev = 6 / 10
          \<and> freq ev = midiToFreq (48 + Math_round ((1 - ny) * 24))
          \<and> baseFreq ev = freq ev
          \<and> (\<forall>nx' l. events (final (placeEventAt nx' ny rid rc (s\<lparr>loopStartTime := l\<rparr>)))
                        = events s @ [ev])
          \<and> (\<forall>ny'. \<exists>ev'. events (final (placeEventAt nx ny' rid rc s)) = events s @ [ev']
                        \<and> ev' = ev\<lparr>freq := freq ev', baseFreq := baseFreq ev'\<rparr>)"
  using assms
  by (auto simp: placeEventAt_def ensureAudio_def Let_def triggerVisualEvent_def playEventAt_def)

theorem placeEventAt_next_step_witness:
  "audioCtx session_started = Some new_audio
   \<and> (\<exists>s' ev. placeEventAt (3 / 5) (1 / 8) ''4fzzzxk'' 0 session_started = Returned s'
          \<and> events s' = [ev] \<and> step ev = 1 \<and> gain ev = 6 / 10 \<and> freq ev = 440)"
proof -
  have c: "audioCtx session_started = Some new_audio"
    by (simp add: session_started_eq initial_def)
  then have h: "audioCtx session_started \<noteq> None \<or> audioSupported session_started"
    by simp
  have e: "events session_started = []" "currentStep session_started = 0"
    by (simp_all add: session_started_eq initial_def)
  have "Math_round 21 = 21" by (simp add: Math_round_def)
  then have r: "midiToFreq (48 + Math_round 21) = 440" by (simp add: midiToFreq_69)
  from placeEventAt_next_step[OF h, of "3 / 5" "1 / 8" "''4fzzzxk''" 0]
  obtain s' ev where "placeEventAt (3 / 5) (1 / 8) ''4fzzzxk'' 0 session_started = Returned s'"
          "events s' = events session_started @ [ev]"
          "step ev = (currentStep session_started + 1) mod steps"
          "gain ev = 6 / 10"
          "freq ev = midiToFreq (48 + Math_round ((1 - 1 / 8) * 24))"
    by blast
  then have "placeEventAt (3 / 5) (1 / 8) ''4fzzzxk'' 0 session_started = Returned s'
          \<and> events s' = [ev] \<and> step ev = 1 \<and> gain ev = 6 / 10 \<and> freq ev = 440"
    by (simp add: e r midiToFreq_69 steps_def LOOP_BEATS_def SUBDIV_def)
  with c show ?thesis by blast
qed

end
